theory Spec2Isabelle
  imports Complex_Main
begin

section \<open>The mortgage calculator of src/App.jsx\<close>

text \<open>
  The calculator is one function, \<open>calculate\<close>, called by the form handler
  \<open>handleSubmit\<close>. Its numbers are JavaScript numbers. The model keeps NaN and the two
  infinities and computes on the finite numbers with exact reals: the rounding and the
  overflow of IEEE doubles are not modelled, so every theorem below is about the
  algorithm in exact arithmetic. An infinity then comes from a division by zero or from
  the input, never from a large result, and what rounding alone decides, such as whether
  a payment still exceeds the interest at a very high rate, is outside the model. Zero
  has no sign: a zero divisor counts as \<open>+0\<close>, which is what \<open>x - 1\<close> gives for
  \<open>x = 1\<close>, the only divisor of \<open>calculate\<close> that can be zero.

  On doubles the program departs from this model where a rounding decides the outcome.
  For a rate as small as 1e-17 the sum \<open>1 + i\<close> rounds to 1, the divisor is zero and
  the payment is Infinity. In \<open>calculate(500000, 2, 29, 0)\<close> the principal portion of a
  month, 1.4551915228366852e-11, is lost when it is subtracted from 500000, and in
  \<open>calculate(1, 378, 0, 0)\<close> the payment, 31.499999999999996, has rounded below the
  first month's interest of 31.5: in both the \<open>while\<close> loop does not end, whereas in
  exact arithmetic it ends for every positive principal, rate and supported term. Such
  runs cannot be stated here; the theorems on sums of money allow for the rounding by a
  tolerance, and those on the length of the schedule hold barring rounding.
\<close>

subsection \<open>JavaScript numbers\<close>

datatype jsnum = NaN | NInf | PInf | Num real

fun js_neg :: "jsnum \<Rightarrow> jsnum" where
  "js_neg NaN = NaN"
| "js_neg NInf = PInf"
| "js_neg PInf = NInf"
| "js_neg (Num x) = Num (- x)"

fun js_add :: "jsnum \<Rightarrow> jsnum \<Rightarrow> jsnum" where
  "js_add NaN b = NaN"
| "js_add a NaN = NaN"
| "js_add (Num x) (Num y) = Num (x + y)"
| "js_add (Num x) b = b"
| "js_add a (Num y) = a"
| "js_add a b = (if a = b then a else NaN)"

definition js_sub :: "jsnum \<Rightarrow> jsnum \<Rightarrow> jsnum" where
  "js_sub a b = js_add a (js_neg b)"

fun js_mul :: "jsnum \<Rightarrow> jsnum \<Rightarrow> jsnum" where
  "js_mul NaN b = NaN"
| "js_mul a NaN = NaN"
| "js_mul (Num x) (Num y) = Num (x * y)"
| "js_mul (Num x) b = (if x = 0 then NaN else if 0 < x then b else js_neg b)"
| "js_mul a (Num y) = (if y = 0 then NaN else if 0 < y then a else js_neg a)"
| "js_mul a b = (if a = b then PInf else NInf)"

fun js_div :: "jsnum \<Rightarrow> jsnum \<Rightarrow> jsnum" where
  "js_div NaN b = NaN"
| "js_div a NaN = NaN"
| "js_div (Num x) (Num y) =
     (if y = 0 then (if x = 0 then NaN else if 0 < x then PInf else NInf) else Num (x / y))"
| "js_div (Num x) b = Num 0"
| "js_div a (Num y) = (if 0 \<le> y then a else js_neg a)"
| "js_div a b = NaN"

text \<open>\<open>Math.pow\<close> for an exponent that is a natural number.\<close>

fun js_pow :: "jsnum \<Rightarrow> nat \<Rightarrow> jsnum" where
  "js_pow a 0 = Num 1"
| "js_pow NaN n = NaN"
| "js_pow PInf n = PInf"
| "js_pow NInf n = (if even n then PInf else NInf)"
| "js_pow (Num x) n = Num (x ^ n)"

text \<open>The comparisons: false when an operand is NaN.\<close>

fun js_lt :: "jsnum \<Rightarrow> jsnum \<Rightarrow> bool" where
  "js_lt NaN b = False"
| "js_lt a NaN = False"
| "js_lt (Num x) (Num y) = (x < y)"
| "js_lt a PInf = (a \<noteq> PInf)"
| "js_lt NInf b = (b \<noteq> NInf)"
| "js_lt a b = False"

fun js_le :: "jsnum \<Rightarrow> jsnum \<Rightarrow> bool" where
  "js_le NaN b = False"
| "js_le a NaN = False"
| "js_le (Num x) (Num y) = (x \<le> y)"
| "js_le a PInf = True"
| "js_le NInf b = True"
| "js_le a b = False"

definition js_gt :: "jsnum \<Rightarrow> jsnum \<Rightarrow> bool" where
  "js_gt a b = js_lt b a"

fun isNaN :: "jsnum \<Rightarrow> bool" where
  "isNaN NaN = True"
| "isNaN a = False"

text \<open>\<open>!x\<close> on a number: true for 0 and for NaN.\<close>

fun js_not :: "jsnum \<Rightarrow> bool" where
  "js_not NaN = True"
| "js_not (Num x) = (x = 0)"
| "js_not a = False"

text \<open>\<open>Math.round\<close>.\<close>

fun js_round :: "jsnum \<Rightarrow> jsnum" where
  "js_round (Num x) = Num (of_int \<lfloor>x + 1 / 2\<rfloor>)"
| "js_round a = a"

subsection \<open>Constants and data\<close>

definition EPSILON :: real where
  "EPSILON = 1 / 100"

text \<open>The table of terms in \<open>calculate\<close>: the select option \<open>k\<close> stands for \<open>k + 1\<close> years.\<close>

definition termYears :: "nat list" where
  "termYears = [1, 2, 3, 4, 5, 6, 7, 8, 9, 10, 11, 12, 13, 14, 15, 16, 17, 18, 19, 20,
                21, 22, 23, 24, 25, 26, 27, 28, 29, 30]"

text \<open>\<open>termYears[loanTerm]\<close>: \<open>None\<close> is JavaScript's \<open>undefined\<close>.\<close>

definition termYearsAt :: "nat \<Rightarrow> nat option" where
  "termYearsAt loanTerm =
     (if loanTerm < length termYears then Some (termYears ! loanTerm) else None)"

text \<open>
  \<open>Math.pow(x, termMonths)\<close>, where \<open>termMonths\<close> is \<open>termYears[loanTerm] * 12\<close>:
  \<open>undefined * 12\<close> is NaN, and a power with the exponent NaN is NaN.
\<close>

definition pow_termMonths :: "jsnum \<Rightarrow> nat option \<Rightarrow> jsnum" where
  "pow_termMonths x years = (case years of None \<Rightarrow> NaN | Some y \<Rightarrow> js_pow x (y * 12))"

text \<open>
  One element of \<open>monthlyPayments\<close>: the object pushed once a month. The type of its
  numbers is a parameter: \<open>jsnum\<close> in the program, \<open>real\<close> where a run is finite.
\<close>

record 'n payment =
  interestPayment :: 'n
  principalPayment :: 'n
  principal :: 'n
  totalPaid :: 'n

subsection \<open>The amortization loop\<close>

text \<open>
  The loop state is the pair of the two mutable variables \<open>(principal, totalPaid)\<close>.
  \<open>month\<close> is the body of the \<open>for\<close> loop up to the \<open>push\<close>: it returns the new
  state and the record pushed.
\<close>

definition month ::
  "jsnum \<Rightarrow> jsnum \<Rightarrow> jsnum \<Rightarrow> jsnum \<times> jsnum \<Rightarrow> (jsnum \<times> jsnum) \<times> jsnum payment" where
  "month monthlyPayment interest extraPrincipal s =
     (let interestPayment = js_div (js_mul (fst s) interest) (Num 12);
          principalPayment = js_sub (js_add monthlyPayment extraPrincipal) interestPayment;
          principalPayment = (if js_le (fst s) principalPayment then fst s else principalPayment);
          p = js_sub (fst s) principalPayment;
          tp = js_add (snd s) (js_add interestPayment principalPayment);
          p = (if js_le p (Num EPSILON) then Num 0 else p)
      in ((p, tp),
          \<lparr>interestPayment = interestPayment, principalPayment = principalPayment,
           principal = p, totalPaid = tp\<rparr>))"

text \<open>
  The \<open>for\<close> loop: the first argument is the number of iterations left, \<open>12 - j\<close>;
  the loop leaves early, after the push, once the principal is at most \<open>EPSILON\<close>.
\<close>

fun year :: "nat \<Rightarrow> jsnum \<Rightarrow> jsnum \<Rightarrow> jsnum \<Rightarrow> jsnum \<times> jsnum \<Rightarrow> jsnum payment list
    \<Rightarrow> (jsnum \<times> jsnum) \<times> jsnum payment list" where
  "year 0 monthlyPayment interest extraPrincipal s monthlyPayments = (s, monthlyPayments)"
| "year (Suc k) monthlyPayment interest extraPrincipal s monthlyPayments =
     (case month monthlyPayment interest extraPrincipal s of
        (s', m) \<Rightarrow>
          if js_le (fst s') (Num EPSILON) then (s', monthlyPayments @ [m])
          else year k monthlyPayment interest extraPrincipal s' (monthlyPayments @ [m]))"

text \<open>
  The \<open>while\<close> loop. Nothing bounds the number of its iterations, so it is a partial
  function: \<open>None\<close> means that the loop never ends.
\<close>

partial_function (option) amortize ::
  "jsnum \<Rightarrow> jsnum \<Rightarrow> jsnum \<Rightarrow> jsnum \<times> jsnum \<Rightarrow> jsnum payment list list
    \<Rightarrow> ((jsnum \<times> jsnum) \<times> jsnum payment list list) option" where
  [code]: "amortize monthlyPayment interest extraPrincipal s payments =
     (if js_gt (fst s) (Num EPSILON) then
        (case year 12 monthlyPayment interest extraPrincipal s [] of
           (s', monthlyPayments) \<Rightarrow>
             amortize monthlyPayment interest extraPrincipal s'
               (if length monthlyPayments > 0 then payments @ [monthlyPayments]
                else payments))
      else Some (s, payments))"

subsection \<open>calculate\<close>

text \<open>
  Lines 86 to 135 of \<open>calculate\<close>: the fixed payment, then the loop. The value is the
  triple of the locals \<open>monthlyPayment\<close>, \<open>totalPaid\<close> and \<open>payments\<close> at line 136.
\<close>

definition calculate_core ::
  "jsnum \<Rightarrow> jsnum \<Rightarrow> nat \<Rightarrow> jsnum \<Rightarrow> (jsnum \<times> jsnum \<times> jsnum payment list list) option" where
  "calculate_core loanAmount interest loanTerm extraPrincipal =
     (let years = termYearsAt loanTerm;
          i = js_div interest (Num 12);
          a = js_mul i (pow_termMonths (js_add (Num 1) i) years);
          b = js_sub (pow_termMonths (js_add (Num 1) i) years) (Num 1);
          monthlyPayment = js_div (js_mul loanAmount a) b
      in case amortize monthlyPayment interest extraPrincipal (loanAmount, Num 0) [] of
           None \<Rightarrow> None
         | Some (s, payments) \<Rightarrow> Some (monthlyPayment, snd s, payments))"

text \<open>
  The result of \<open>calculate\<close>. A currency string is modelled by the number that
  \<open>currencyFormatter.format\<close> is given: the formatter is the platform's.
\<close>

record tableRow =
  row_interest :: jsnum
  row_principal :: jsnum
  row_principalBalance :: jsnum

record chart =
  labels :: "nat list"
  interestData :: "jsnum list"
  principalData :: "jsnum list"

record results =
  res_monthlyPayment :: jsnum
  res_totalPaid :: jsnum
  totalYears :: nat
  chartData :: chart
  tableData :: "tableRow list"

text \<open>Lines 146 to 166, for one year: the two sums, the two averages, the table row.\<close>

definition yearInterest :: "jsnum payment list \<Rightarrow> jsnum" where
  "yearInterest monthlyPayments = foldl js_add (Num 0) (map interestPayment monthlyPayments)"

definition yearPrincipal :: "jsnum payment list \<Rightarrow> jsnum" where
  "yearPrincipal monthlyPayments = foldl js_add (Num 0) (map principalPayment monthlyPayments)"

definition lastPrincipal :: "jsnum payment list \<Rightarrow> jsnum" where
  "lastPrincipal monthlyPayments =
     (if monthlyPayments = [] then Num 0 else principal (last monthlyPayments))"

definition calculate_output :: "jsnum \<times> jsnum \<times> jsnum payment list list \<Rightarrow> results" where
  "calculate_output v =
     (case v of (monthlyPayment, tp, payments) \<Rightarrow>
        \<lparr>res_monthlyPayment = js_round monthlyPayment,
         res_totalPaid = js_round tp,
         totalYears = length payments,
         chartData =
           \<lparr>labels = map (\<lambda>index. index + 1) [0..<length payments],
            interestData =
              map (\<lambda>ms. js_div (yearInterest ms) (Num (real (length ms)))) payments,
            principalData =
              map (\<lambda>ms. js_div (yearPrincipal ms) (Num (real (length ms)))) payments\<rparr>,
         tableData =
           map (\<lambda>ms. \<lparr>row_interest = js_round (yearInterest ms),
                       row_principal = js_round (yearPrincipal ms),
                       row_principalBalance = js_round (lastPrincipal ms)\<rparr>) payments\<rparr>)"

definition calculate :: "jsnum \<Rightarrow> jsnum \<Rightarrow> nat \<Rightarrow> jsnum \<Rightarrow> results option" where
  "calculate loanAmount interest loanTerm extraPrincipal =
     map_option calculate_output (calculate_core loanAmount interest loanTerm extraPrincipal)"

subsection \<open>The loop on finite numbers\<close>

text \<open>
  The same three functions on reals. They are what the loop does as long as its numbers
  are finite: \<open>amortize_Num\<close> below proves that the loop of \<open>calculate\<close>, started on
  finite numbers, is this one. The proofs about finite runs are made here.
\<close>

definition month_fin ::
  "real \<Rightarrow> real \<Rightarrow> real \<Rightarrow> real \<times> real \<Rightarrow> (real \<times> real) \<times> real payment" where
  "month_fin monthlyPayment interest extraPrincipal s =
     (let interestPayment = (fst s * interest) / 12;
          principalPayment = monthlyPayment + extraPrincipal - interestPayment;
          principalPayment = (if fst s \<le> principalPayment then fst s else principalPayment);
          p = fst s - principalPayment;
          tp = snd s + (interestPayment + principalPayment);
          p = (if p \<le> EPSILON then 0 else p)
      in ((p, tp),
          \<lparr>interestPayment = interestPayment, principalPayment = principalPayment,
           principal = p, totalPaid = tp\<rparr>))"

fun year_fin :: "nat \<Rightarrow> real \<Rightarrow> real \<Rightarrow> real \<Rightarrow> real \<times> real \<Rightarrow> real payment list
    \<Rightarrow> (real \<times> real) \<times> real payment list" where
  "year_fin 0 monthlyPayment interest extraPrincipal s monthlyPayments = (s, monthlyPayments)"
| "year_fin (Suc k) monthlyPayment interest extraPrincipal s monthlyPayments =
     (case month_fin monthlyPayment interest extraPrincipal s of
        (s', m) \<Rightarrow>
          if fst s' \<le> EPSILON then (s', monthlyPayments @ [m])
          else year_fin k monthlyPayment interest extraPrincipal s' (monthlyPayments @ [m]))"

partial_function (option) amortize_fin ::
  "real \<Rightarrow> real \<Rightarrow> real \<Rightarrow> real \<times> real \<Rightarrow> real payment list list
    \<Rightarrow> ((real \<times> real) \<times> real payment list list) option" where
  [code]: "amortize_fin monthlyPayment interest extraPrincipal s payments =
     (if fst s > EPSILON then
        (case year_fin 12 monthlyPayment interest extraPrincipal s [] of
           (s', monthlyPayments) \<Rightarrow>
             amortize_fin monthlyPayment interest extraPrincipal s'
               (if length monthlyPayments > 0 then payments @ [monthlyPayments]
                else payments))
      else Some (s, payments))"

text \<open>A record, a loop state and a schedule of finite numbers, as the program has them.\<close>

definition js_payment :: "real payment \<Rightarrow> jsnum payment" where
  "js_payment m =
     \<lparr>interestPayment = Num (interestPayment m), principalPayment = Num (principalPayment m),
      principal = Num (principal m), totalPaid = Num (totalPaid m)\<rparr>"

definition js_state :: "real \<times> real \<Rightarrow> jsnum \<times> jsnum" where
  "js_state s = (Num (fst s), Num (snd s))"

definition js_payments :: "real payment list list \<Rightarrow> jsnum payment list list" where
  "js_payments ps = map (map js_payment) ps"

subsection \<open>handleSubmit\<close>

text \<open>
  The form state holds the text of the inputs. The model holds for each text the number
  that \<open>Number\<close> makes of it. \<open>loanTerm\<close> is the value of the selected option, used as
  an index. \<open>error\<close> and \<open>results\<close> start as \<open>null\<close>, here \<open>None\<close>; the fields of
  \<open>state.results\<close> are set together, from one result of \<open>calculate\<close>, whose
  \<open>chartData\<close> goes to the chart. \<open>None\<close> for the whole call means that it does not
  return.
\<close>

record state =
  loanAmount :: jsnum
  interest :: jsnum
  loanTerm :: nat
  extraMonthlyPayment :: jsnum
  error :: "string option"
  results :: "results option"

definition handleSubmit :: "state \<Rightarrow> state option" where
  "handleSubmit st =
     (let amount = loanAmount st;
          rate = js_mul (interest st) (Num (1 / 100));
          extra = extraMonthlyPayment st
      in if isNaN amount \<or> js_not amount then
           Some (st\<lparr>error := Some ''Loan amount is invalid''\<rparr>)
         else if isNaN rate \<or> js_not rate then
           Some (st\<lparr>error := Some ''Interest is invalid''\<rparr>)
         else if isNaN extra \<or> js_lt extra (Num 0) then
           Some (st\<lparr>error := Some ''Extra monthly payment is invalid''\<rparr>)
         else
           (case calculate amount rate (loanTerm st) extra of
              None \<Rightarrow> None
            | Some res \<Rightarrow> Some (st\<lparr>error := Some [], results := Some res\<rparr>)))"

subsection \<open>The specification's side\<close>

text \<open>
  The valid inputs of the specification: a positive principal, a positive annual rate, a
  term of 1 to 30 years, which is a select option from 0 to 29, and an extra payment
  that is not negative. They are finite numbers.
\<close>

definition validInput :: "real \<Rightarrow> real \<Rightarrow> nat \<Rightarrow> real \<Rightarrow> bool" where
  "validInput amount annualRate term extra \<longleftrightarrow>
     0 < amount \<and> 0 < annualRate \<and> term < 30 \<and> 0 \<le> extra"

text \<open>The payment formula in the words of the specification.\<close>

definition spec_payment :: "real \<Rightarrow> real \<Rightarrow> nat \<Rightarrow> real" where
  "spec_payment amount annualRate years =
     (let i = annualRate / 12; n = years * 12
      in amount * i * (1 + i) ^ n / ((1 + i) ^ n - 1))"


text \<open>
  The invalid parameters in the words of the specification, on the numbers that
  \<open>handleSubmit\<close> reads (the rate in percent): a principal or a rate that is not a
  positive number, an extra payment that is not a number or is negative, a term that is
  not one of the thirty options.
\<close>

definition not_positive :: "jsnum \<Rightarrow> bool" where
  "not_positive a \<longleftrightarrow> \<not> js_lt (Num 0) a"

definition spec_invalid :: "state \<Rightarrow> bool" where
  "spec_invalid st \<longleftrightarrow>
     not_positive (loanAmount st) \<or> not_positive (interest st) \<or>
     isNaN (extraMonthlyPayment st) \<or> js_lt (extraMonthlyPayment st) (Num 0) \<or>
     30 \<le> loanTerm st"

text \<open>What the specification asks of an invalid input: an error message and nothing else.\<close>

definition rejected :: "state \<Rightarrow> bool" where
  "rejected st \<longleftrightarrow>
     (\<exists>msg. msg \<noteq> [] \<and> handleSubmit st = Some (st\<lparr>error := Some msg\<rparr>))"

subsection \<open>The schedule in closed form, and the loop invariants\<close>

text \<open>
  The balance left after \<open>k\<close> months when every month pays \<open>mp + e\<close> in full and
  nothing is clamped or snapped: \<open>balance 0 = P\<close> and
  \<open>balance (k + 1) = balance k * (1 + r / 12) - (mp + e)\<close>.
\<close>

definition balance :: "real \<Rightarrow> real \<Rightarrow> real \<Rightarrow> real \<Rightarrow> nat \<Rightarrow> real" where
  "balance mp r e P k =
     P * (1 + r / 12) ^ k - (mp + e) * ((1 + r / 12) ^ k - 1) / (r / 12)"

text \<open>
  An invariant \<open>Q\<close> of the months, on the loop state and the records pushed so far in
  all years, gives an invariant of the \<open>while\<close> loop: the years are full but for the
  last one.
\<close>

definition loop_inv ::
  "(real \<times> real \<Rightarrow> real payment list \<Rightarrow> bool) \<Rightarrow> real \<times> real \<Rightarrow> real payment list list \<Rightarrow> bool" where
  "loop_inv Q s ps \<longleftrightarrow>
     Q s (concat ps) \<and> length ps = (length (concat ps) + 11) div 12 \<and>
     (EPSILON < fst s \<longrightarrow> 12 dvd length (concat ps))"

text \<open>While the principal is above \<open>EPSILON\<close> it is the closed form; the loan is paid
  off in the first month whose closed form is at most \<open>EPSILON\<close>.\<close>

definition inv_balance :: "real \<Rightarrow> real \<Rightarrow> real \<Rightarrow> real \<Rightarrow> real \<times> real \<Rightarrow> real payment list \<Rightarrow> bool" where
  "inv_balance mp r e P s fl \<longleftrightarrow>
     (EPSILON < fst s \<longrightarrow> fst s = balance mp r e P (length fl)) \<and>
     (fl \<noteq> [] \<longrightarrow> EPSILON < balance mp r e P (length fl - 1)) \<and>
     (fst s \<le> EPSILON \<longrightarrow> fl \<noteq> [] \<longrightarrow> balance mp r e P (length fl) \<le> EPSILON)"

text \<open>The last record holds the current principal, which is 0 or above \<open>EPSILON\<close>; the
  records before it are above \<open>EPSILON\<close>.\<close>

definition inv_snap :: "real \<times> real \<Rightarrow> real payment list \<Rightarrow> bool" where
  "inv_snap s fl \<longleftrightarrow>
     (\<forall>m \<in> set (butlast fl). EPSILON < principal m) \<and>
     (fl \<noteq> [] \<longrightarrow> principal (last fl) = fst s \<and> (fst s = 0 \<or> EPSILON < fst s))"

definition inv_mono :: "real \<Rightarrow> real \<times> real \<Rightarrow> real payment list \<Rightarrow> bool" where
  "inv_mono P s fl \<longleftrightarrow>
     0 \<le> fst s \<and> fst s \<le> P \<and> sorted_wrt (\<ge>) (map principal fl) \<and>
     (\<forall>m \<in> set fl. fst s \<le> principal m \<and> principal m \<le> P \<and> 0 < principalPayment m)"

text \<open>\<open>totalPaid\<close> is the sum of the two portions; the principal portions add up to the
  loan, but for the residue that the snap to zero forgives.\<close>

definition inv_total :: "real \<Rightarrow> real \<times> real \<Rightarrow> real payment list \<Rightarrow> bool" where
  "inv_total P s fl \<longleftrightarrow>
     snd s = sum_list (map interestPayment fl) + sum_list (map principalPayment fl) \<and>
     (if EPSILON < fst s then P - sum_list (map principalPayment fl) = fst s
      else 0 \<le> P - sum_list (map principalPayment fl) \<and>
           P - sum_list (map principalPayment fl) \<le> EPSILON)"

text \<open>Every month pays \<open>mp + e\<close>, but the last one when it is clamped.\<close>

definition inv_paid :: "real \<Rightarrow> real \<Rightarrow> real \<Rightarrow> real \<Rightarrow> real \<times> real \<Rightarrow> real payment list \<Rightarrow> bool" where
  "inv_paid mp r e P s fl \<longleftrightarrow>
     snd s = real (length fl) * (mp + e) +
       (if EPSILON < fst s then 0 else min 0 (balance mp r e P (length fl)))"

definition inv_regular :: "real \<Rightarrow> real \<Rightarrow> real \<Rightarrow> real \<Rightarrow> real \<times> real \<Rightarrow> real payment list \<Rightarrow> bool" where
  "inv_regular mp r e P s fl \<longleftrightarrow>
     inv_balance mp r e P s fl \<and> inv_snap s fl \<and> inv_mono P s fl \<and> inv_total P s fl \<and>
     inv_paid mp r e P s fl"

section \<open>The loops\<close>

subsection \<open>Invariants of the months carry over to the two loops\<close>

lemma year_inv:
  assumes step: "\<And>s fl. Q s fl \<Longrightarrow> EPSILON < fst s \<Longrightarrow>
      Q (fst (month_fin mp r e s)) (fl @ [snd (month_fin mp r e s)])"
  shows "Q s (base @ acc) \<Longrightarrow> EPSILON < fst s \<Longrightarrow> 0 < k \<Longrightarrow>
     \<exists>s' ms. year_fin k mp r e s acc = (s', acc @ ms) \<and> ms \<noteq> [] \<and> length ms \<le> k \<and>
        Q s' (base @ acc @ ms) \<and> (fst s' \<le> EPSILON \<or> length ms = k)"
proof (induction k arbitrary: s acc)
  case 0
  then show ?case by simp
next
  case (Suc k)
  obtain s1 m where sm: "month_fin mp r e s = (s1, m)"
    by (cases "month_fin mp r e s")
  from step [OF Suc.prems(1,2)] sm have q1: "Q s1 (base @ acc @ [m])"
    by simp
  show ?case
  proof (cases "fst s1 \<le> EPSILON")
    case True
    with sm q1 show ?thesis
      by (intro exI [of _ s1] exI [of _ "[m]"]) simp
  next
    case False
    show ?thesis
    proof (cases k)
      case 0
      with False sm q1 show ?thesis
        by (intro exI [of _ s1] exI [of _ "[m]"]) simp
    next
      case (Suc k')
      with False q1 Suc.IH [of s1 "acc @ [m]"]
      obtain s' ms where y: "year_fin k mp r e s1 (acc @ [m]) = (s', (acc @ [m]) @ ms)"
        and rest: "ms \<noteq> []" "length ms \<le> k" "Q s' (base @ (acc @ [m]) @ ms)"
          "fst s' \<le> EPSILON \<or> length ms = k"
        by auto
      from False sm y rest show ?thesis
        by (intro exI [of _ s'] exI [of _ "m # ms"]) auto
    qed
  qed
qed

lemma loop_inv_year:
  assumes step: "\<And>s fl. Q s fl \<Longrightarrow> EPSILON < fst s \<Longrightarrow>
      Q (fst (month_fin mp r e s)) (fl @ [snd (month_fin mp r e s)])"
  assumes w: "loop_inv Q s ps" and gt: "EPSILON < fst s"
  shows "\<exists>s' ms. year_fin 12 mp r e s [] = (s', ms) \<and> ms \<noteq> [] \<and> length ms \<le> 12 \<and>
     loop_inv Q s' (ps @ [ms])"
proof -
  from w have q: "Q s (concat ps @ [])" and len: "length ps = (length (concat ps) + 11) div 12"
    and dv: "12 dvd length (concat ps)"
    using gt by (simp_all add: loop_inv_def)
  from year_inv [of Q mp r e s "concat ps" "[]" 12, OF step q gt]
  obtain s' ms where y: "year_fin 12 mp r e s [] = (s', ms)" and ne: "ms \<noteq> []"
    and le: "length ms \<le> 12" and q': "Q s' (concat ps @ ms)"
    and fin: "fst s' \<le> EPSILON \<or> length ms = 12"
    by auto
  from ne have pos: "0 < length ms" by simp
  from dv obtain c where c: "length (concat ps) = 12 * c" by (auto simp: dvd_def)
  have "Suc c = (12 * c + length ms + 11) div 12"
    using le pos by arith
  with len c have l1: "length (ps @ [ms]) = (length (concat (ps @ [ms])) + 11) div 12"
    by simp
  have l2: "EPSILON < fst s' \<longrightarrow> 12 dvd length (concat (ps @ [ms]))"
    using fin c by auto
  from y ne le q' l1 l2 show ?thesis
    by (auto simp: loop_inv_def)
qed

lemma amortize_partial:
  assumes step: "\<And>s fl. Q s fl \<Longrightarrow> EPSILON < fst s \<Longrightarrow>
      Q (fst (month_fin mp r e s)) (fl @ [snd (month_fin mp r e s)])"
  assumes run: "amortize_fin mp r e s ps = Some res"
  assumes w: "loop_inv Q s ps"
  shows "fst (fst res) \<le> EPSILON \<and> loop_inv Q (fst res) (snd res)"
proof -
  let ?P = "\<lambda>mp' r' e' s ps res. mp' = mp \<longrightarrow> r' = r \<longrightarrow> e' = e \<longrightarrow> loop_inv Q s ps \<longrightarrow>
      fst (fst res) \<le> EPSILON \<and> loop_inv Q (fst res) (snd res)"
  have "?P mp r e s ps res"
  proof (rule amortize_fin.raw_induct [where P = ?P, OF _ run])
    fix f mp' r' e' s ps res
    assume IH: "\<And>mp' r' e' s ps res. f mp' r' e' s ps = Some res \<Longrightarrow> ?P mp' r' e' s ps res"
    assume body: "(if EPSILON < fst s
        then case year_fin 12 mp' r' e' s [] of
             (s', monthlyPayments) \<Rightarrow>
               f mp' r' e' s'
                (if 0 < length monthlyPayments then ps @ [monthlyPayments] else ps)
        else Some (s, ps)) = Some res"
    show "?P mp' r' e' s ps res"
    proof (intro impI)
      assume eqs: "mp' = mp" "r' = r" "e' = e" and w: "loop_inv Q s ps"
      show "fst (fst res) \<le> EPSILON \<and> loop_inv Q (fst res) (snd res)"
      proof (cases "EPSILON < fst s")
        case False
        with body w show ?thesis by auto
      next
        case True
        from loop_inv_year [of Q mp r e s ps, OF step w True]
        obtain s' ms where y: "year_fin 12 mp r e s [] = (s', ms)" and ne: "ms \<noteq> []"
          and w': "loop_inv Q s' (ps @ [ms])"
          by auto
        from body True y ne eqs have "f mp r e s' (ps @ [ms]) = Some res"
          by simp
        from IH [OF this] w' show ?thesis by simp
      qed
    qed
  qed
  with w show ?thesis by simp
qed

lemma amortize_terminates:
  assumes step: "\<And>s fl. Q s fl \<Longrightarrow> EPSILON < fst s \<Longrightarrow>
      Q (fst (month_fin mp r e s)) (fl @ [snd (month_fin mp r e s)])"
  assumes bound: "\<And>s fl. Q s fl \<Longrightarrow> EPSILON < fst s \<Longrightarrow> length fl < N"
  shows "loop_inv Q s ps \<Longrightarrow> \<exists>res. amortize_fin mp r e s ps = Some res"
proof (induction "N - length (concat ps)" arbitrary: s ps rule: less_induct)
  case less
  show ?case
  proof (cases "EPSILON < fst s")
    case False
    then show ?thesis
      by (subst amortize_fin.simps) simp
  next
    case True
    from loop_inv_year [of Q mp r e s ps, OF step less.prems True]
    obtain s' ms where y: "year_fin 12 mp r e s [] = (s', ms)" and ne: "ms \<noteq> []"
      and w': "loop_inv Q s' (ps @ [ms])"
      by auto
    from less.prems True have "length (concat ps) < N"
      by (auto simp: loop_inv_def intro: bound)
    with ne have "N - length (concat (ps @ [ms])) < N - length (concat ps)"
      by (cases ms) auto
    from less.hyps [OF this w'] obtain res where
      "amortize_fin mp r e s' (ps @ [ms]) = Some res" ..
    with True y ne show ?thesis
      by (subst amortize_fin.simps) simp
  qed
qed

subsection \<open>The closed form\<close>

lemma balance_0: "balance mp r e P 0 = P"
  by (simp add: balance_def)

lemma balance_Suc:
  assumes "r \<noteq> 0"
  shows "balance mp r e P (Suc k) = balance mp r e P k * (1 + r / 12) - (mp + e)"
  using assms by (simp add: balance_def field_simps)

lemma balance_diff:
  assumes "r \<noteq> 0"
  shows "balance mp r e P (Suc k) = balance mp r e P k - (mp + e - P * r / 12) * (1 + r / 12) ^ k"
  using assms by (simp add: balance_def field_simps)

lemma balance_Suc_le:
  assumes "0 < r" "P * r / 12 \<le> mp + e"
  shows "balance mp r e P (Suc k) \<le> balance mp r e P k"
proof -
  have "0 \<le> (mp + e - P * r / 12) * (1 + r / 12) ^ k"
    using assms by (intro mult_nonneg_nonneg) simp_all
  with balance_diff [of r mp e P k] assms show ?thesis by simp
qed

lemma balance_antimono:
  assumes "0 < r" "P * r / 12 \<le> mp + e" "j \<le> k"
  shows "balance mp r e P k \<le> balance mp r e P j"
  using assms(3)
proof (induction k)
  case 0
  then show ?case by simp
next
  case (Suc k)
  show ?case
  proof (cases "j = Suc k")
    case True
    then show ?thesis by simp
  next
    case False
    with Suc have "balance mp r e P k \<le> balance mp r e P j" by simp
    with balance_Suc_le [OF assms(1,2), of k] show ?thesis by simp
  qed
qed

lemma month_eq:
  "month_fin mp r e (p, tp) =
     (let pp = (if p \<le> mp + e - p * r / 12 then p else mp + e - p * r / 12);
          p' = (if p - pp \<le> EPSILON then 0 else p - pp);
          tp' = tp + (p * r / 12 + pp)
      in ((p', tp'),
          \<lparr>interestPayment = p * r / 12, principalPayment = pp, principal = p',
           totalPaid = tp'\<rparr>))"
  by (simp add: month_fin_def Let_def)

lemma inv_balance_step:
  assumes r: "r \<noteq> 0" and q: "inv_balance mp r e P s fl" and gt: "EPSILON < fst s"
  shows "inv_balance mp r e P (fst (month_fin mp r e s)) (fl @ [snd (month_fin mp r e s)])"
proof -
  obtain p tp where s: "s = (p, tp)" by (cases s)
  from q gt s have p: "p = balance mp r e P (length fl)" and gt': "EPSILON < p"
    by (simp_all add: inv_balance_def)
  have nxt: "balance mp r e P (Suc (length fl)) = p - (mp + e - p * r / 12)"
    using balance_Suc [OF r, of mp e P "length fl"] p by (simp add: algebra_simps)
  have eps: "0 < EPSILON" by (simp add: EPSILON_def)
  show ?thesis
    unfolding s inv_balance_def month_eq Let_def
    using nxt gt' p eps by (auto split: if_splits)
qed

lemma inv_snap_step:
  assumes q: "inv_snap s fl" and gt: "EPSILON < fst s"
  shows "inv_snap (fst (month_fin mp r e s)) (fl @ [snd (month_fin mp r e s)])"
proof -
  obtain p tp where s: "s = (p, tp)" by (cases s)
  have all: "\<forall>m \<in> set fl. EPSILON < principal m"
  proof (cases "fl = []")
    case True
    then show ?thesis by simp
  next
    case False
    have "set (butlast fl @ [last fl]) = set (butlast fl) \<union> {last fl}"
      by simp
    with False have "set fl = set (butlast fl) \<union> {last fl}"
      by simp
    moreover from q gt False have "EPSILON < principal (last fl)"
      by (simp add: inv_snap_def)
    moreover from q have "\<forall>m \<in> set (butlast fl). EPSILON < principal m"
      by (simp add: inv_snap_def)
    ultimately show ?thesis by blast
  qed
  have "principal (snd (month_fin mp r e s)) = fst (fst (month_fin mp r e s))"
    by (simp add: s month_eq Let_def)
  moreover have "fst (fst (month_fin mp r e s)) = 0 \<or> EPSILON < fst (fst (month_fin mp r e s))"
    by (simp add: s month_eq Let_def)
  ultimately show ?thesis
    using all by (simp add: inv_snap_def)
qed

lemma inv_mono_step:
  assumes r: "0 \<le> r" and d: "P * r / 12 < mp + e"
    and q: "inv_mono P s fl" and gt: "EPSILON < fst s"
  shows "inv_mono P (fst (month_fin mp r e s)) (fl @ [snd (month_fin mp r e s)])"
proof -
  obtain p tp where s: "s = (p, tp)" by (cases s)
  have eps: "0 < EPSILON" by (simp add: EPSILON_def)
  from q s have pP: "p \<le> P" by (simp add: inv_mono_def)
  from gt s eps have p0: "0 < p" by simp
  from pP r have "p * r \<le> P * r" by (rule mult_right_mono)
  with d have pp0: "0 < mp + e - p * r / 12" by simp
  define pp where "pp = (if p \<le> mp + e - p * r / 12 then p else mp + e - p * r / 12)"
  define p' where "p' = (if p - pp \<le> EPSILON then 0 else p - pp)"
  have pp: "0 < pp" "pp \<le> p"
    using pp0 p0 by (simp_all add: pp_def)
  have p': "0 \<le> p'" "p' \<le> p"
    using pp eps by (simp_all add: p'_def)
  have m1: "fst (fst (month_fin mp r e s)) = p'"
    and m2: "principal (snd (month_fin mp r e s)) = p'"
    and m3: "principalPayment (snd (month_fin mp r e s)) = pp"
    by (simp_all add: s month_eq Let_def p'_def pp_def)
  from q s have old: "\<forall>m \<in> set fl. p \<le> principal m \<and> principal m \<le> P \<and> 0 < principalPayment m"
    and srt: "sorted_wrt (\<ge>) (map principal fl)"
    by (simp_all add: inv_mono_def)
  from old p' have ge: "\<forall>m \<in> set fl. p' \<le> principal m"
    by fastforce
  have "sorted_wrt (\<ge>) (map principal (fl @ [snd (month_fin mp r e s)]))"
    using srt ge by (simp add: sorted_wrt_append m2)
  moreover have "\<forall>m \<in> set (fl @ [snd (month_fin mp r e s)]).
      p' \<le> principal m \<and> principal m \<le> P \<and> 0 < principalPayment m"
    using old ge p' pP pp by (auto simp: m2 m3)
  ultimately show ?thesis
    using p' pP by (simp add: inv_mono_def m1)
qed

lemma inv_total_step:
  assumes q: "inv_total P s fl" and gt: "EPSILON < fst s"
  shows "inv_total P (fst (month_fin mp r e s)) (fl @ [snd (month_fin mp r e s)])"
proof -
  obtain p tp where s: "s = (p, tp)" by (cases s)
  have eps: "0 < EPSILON" by (simp add: EPSILON_def)
  from q gt s have tp: "tp = sum_list (map interestPayment fl) + sum_list (map principalPayment fl)"
    and rem: "P - sum_list (map principalPayment fl) = p"
    by (simp_all add: inv_total_def)
  from gt s eps have p0: "0 < p" by simp
  show ?thesis
    unfolding s inv_total_def month_eq Let_def
    using tp rem p0 eps by (auto split: if_splits)
qed

lemma inv_paid_step:
  assumes r: "r \<noteq> 0" and b: "inv_balance mp r e P s fl"
    and q: "inv_paid mp r e P s fl" and gt: "EPSILON < fst s"
  shows "inv_paid mp r e P (fst (month_fin mp r e s)) (fl @ [snd (month_fin mp r e s)])"
proof -
  obtain p tp where s: "s = (p, tp)" by (cases s)
  have eps: "0 < EPSILON" by (simp add: EPSILON_def)
  from b gt s have p: "p = balance mp r e P (length fl)"
    by (simp add: inv_balance_def)
  from q gt s have tp: "tp = real (length fl) * (mp + e)"
    by (simp add: inv_paid_def)
  have nxt: "balance mp r e P (Suc (length fl)) = p - (mp + e - p * r / 12)"
    using balance_Suc [OF r, of mp e P "length fl"] p by (simp add: algebra_simps)
  show ?thesis
    unfolding s inv_paid_def month_eq Let_def
    using nxt tp eps by (auto split: if_splits simp: algebra_simps)
qed

lemma inv_regular_step:
  assumes "0 < r" "P * r / 12 < mp + e" "inv_regular mp r e P s fl" "EPSILON < fst s"
  shows "inv_regular mp r e P (fst (month_fin mp r e s)) (fl @ [snd (month_fin mp r e s)])"
  using assms inv_balance_step [of r mp e P s fl] inv_snap_step [of s fl mp r e]
    inv_mono_step [of r P mp e s fl] inv_total_step [of P s fl mp r e]
    inv_paid_step [of r mp e P s fl]
  by (simp add: inv_regular_def)

lemma inv_regular_start:
  assumes "0 \<le> P"
  shows "inv_regular mp r e P (P, 0) []"
  using assms by (simp add: inv_regular_def inv_balance_def inv_snap_def inv_mono_def
      inv_total_def inv_paid_def balance_0)

lemma balance_bound:
  assumes "0 < r" "P * r / 12 \<le> mp + e" "balance mp r e P N \<le> EPSILON"
    "EPSILON < balance mp r e P k"
  shows "k < N"
proof (rule ccontr)
  assume "\<not> k < N"
  then have "N \<le> k" by simp
  from balance_antimono [OF assms(1,2) this] assms(3,4) show False by simp
qed

lemma amortize_regular:
  assumes r: "0 < r" and d: "P * r / 12 < mp + e" and P: "0 \<le> P"
    and N: "balance mp r e P N \<le> EPSILON"
  shows "\<exists>s ps. amortize_fin mp r e (P, 0) [] = Some (s, ps) \<and> fst s \<le> EPSILON \<and>
     inv_regular mp r e P s (concat ps) \<and> length ps = (length (concat ps) + 11) div 12"
proof -
  let ?Q = "inv_regular mp r e P"
  have step: "\<And>s fl. ?Q s fl \<Longrightarrow> EPSILON < fst s \<Longrightarrow>
      ?Q (fst (month_fin mp r e s)) (fl @ [snd (month_fin mp r e s)])"
    using r d by (rule inv_regular_step)
  have bound: "\<And>s fl. ?Q s fl \<Longrightarrow> EPSILON < fst s \<Longrightarrow> length fl < N"
  proof -
    fix s fl
    assume "?Q s fl" and gt: "EPSILON < fst s"
    then have "fst s = balance mp r e P (length fl)"
      by (simp add: inv_regular_def inv_balance_def)
    with gt have "EPSILON < balance mp r e P (length fl)" by simp
    with balance_bound [OF r _ N] d show "length fl < N" by simp
  qed
  have start: "loop_inv ?Q (P, 0) []"
    using inv_regular_start [OF P] by (simp add: loop_inv_def)
  have "\<exists>res. amortize_fin mp r e (P, 0) [] = Some res"
    by (rule amortize_terminates [where Q = ?Q and N = N])
      ((rule step; assumption), (rule bound; assumption), rule start)
  then obtain res where run: "amortize_fin mp r e (P, 0) [] = Some res" ..
  have "fst (fst res) \<le> EPSILON \<and> loop_inv ?Q (fst res) (snd res)"
    by (rule amortize_partial [where Q = ?Q and s = "(P, 0)" and ps = "[]"])
      ((rule step; assumption), rule run, rule start)
  then have "fst (fst res) \<le> EPSILON" and "loop_inv ?Q (fst res) (snd res)"
    by simp_all
  with run show ?thesis
    by (intro exI [of _ "fst res"] exI [of _ "snd res"]) (simp add: loop_inv_def)
qed

subsection \<open>Valid inputs\<close>

lemma termYears_nth:
  assumes "k < 30"
  shows "termYears ! k = k + 1"
proof -
  have eq: "termYears = map Suc [0..<30]"
    by (simp add: termYears_def upt_rec)
  show ?thesis
    unfolding eq using assms by simp
qed

lemma termYearsAt_valid: "k < 30 \<Longrightarrow> termYearsAt k = Some (k + 1)"
  using termYears_nth [of k] by (simp add: termYearsAt_def termYears_def)


lemma growth_gt_1:
  fixes r :: real
  assumes "0 < r" "0 < n"
  shows "1 < (1 + r / 12) ^ n"
  using assms by (intro one_less_power) simp_all

lemma payment_gt_interest:
  fixes P r :: real
  assumes P: "0 < P" and r: "0 < r" and n: "0 < n"
  shows "P * r / 12 < (P * (r / 12 * (1 + r / 12) ^ n)) / ((1 + r / 12) ^ n - 1)"
proof -
  define X where "X = (1 + r / 12) ^ n"
  have X: "1 < X" unfolding X_def using r n by (rule growth_gt_1)
  define c where "c = P * r / 12"
  have c: "0 < c" using P r by (simp add: c_def)
  then have "c * (X - 1) < c * X"
    by (simp add: algebra_simps)
  then have "c < (c * X) / (X - 1)"
    using X by (simp add: pos_less_divide_eq)
  then show ?thesis by (simp add: X_def c_def mult.assoc)
qed

lemma balance_payoff:
  assumes r: "0 < r" and n: "0 < n"
  shows "balance ((P * (r / 12 * (1 + r / 12) ^ n)) / ((1 + r / 12) ^ n - 1)) r 0 P n = 0"
proof -
  define X where "X = (1 + r / 12) ^ n"
  have X: "1 < X" unfolding X_def using r n by (rule growth_gt_1)
  then have "X - 1 \<noteq> 0" by simp
  with r show ?thesis
    unfolding balance_def X_def [symmetric] by (simp add: field_simps)
qed

lemma balance_extra_le:
  assumes r: "0 < r" and e: "0 \<le> e"
  shows "balance mp r e P k \<le> balance mp r 0 P k"
proof -
  have "1 \<le> (1 + r / 12) ^ k"
    using r by (intro one_le_power) simp
  then have "0 \<le> e * ((1 + r / 12) ^ k - 1) / (r / 12)"
    using r e by simp
  moreover have "balance mp r e P k =
      balance mp r 0 P k - e * ((1 + r / 12) ^ k - 1) / (r / 12)"
    by (simp add: balance_def distrib_right add_divide_distrib)
  ultimately show ?thesis
    by simp
qed

lemma spec_payment_eq:
  "spec_payment P r y = (P * (r / 12 * (1 + r / 12) ^ (y * 12))) / ((1 + r / 12) ^ (y * 12) - 1)"
  by (simp add: spec_payment_def Let_def mult.assoc)


section \<open>Finite runs\<close>

text \<open>On finite numbers the program is the loop on the reals.\<close>

lemma fst_js_state: "fst (js_state s) = Num (fst s)"
  by (simp add: js_state_def)

lemma snd_js_state: "snd (js_state s) = Num (snd s)"
  by (simp add: js_state_def)

lemma month_Num:
  "month (Num mp) (Num r) (Num e) (js_state s) =
     (js_state (fst (month_fin mp r e s)), js_payment (snd (month_fin mp r e s)))"
  by (simp add: month_def month_fin_def js_state_def js_payment_def js_sub_def Let_def)

lemma year_Num:
  "year k (Num mp) (Num r) (Num e) (js_state s) (map js_payment acc) =
     (js_state (fst (year_fin k mp r e s acc)), map js_payment (snd (year_fin k mp r e s acc)))"
proof (induction k arbitrary: s acc)
  case 0
  then show ?case by simp
next
  case (Suc k)
  obtain s1 m where sm: "month_fin mp r e s = (s1, m)"
    by (cases "month_fin mp r e s")
  show ?case
    using Suc.IH [of s1 "acc @ [m]"] by (simp add: month_Num sm fst_js_state)
qed

lemma year_Num_start:
  "year 12 (Num mp) (Num r) (Num e) (js_state s) [] =
     (js_state (fst (year_fin 12 mp r e s [])), map js_payment (snd (year_fin 12 mp r e s [])))"
  using year_Num [of 12 mp r e s "[]"] by simp

lemma amortize_step_Num:
  "(if js_gt (fst (js_state s)) (Num EPSILON)
    then case year 12 (Num mp) (Num r) (Num e) (js_state s) [] of
         (s', monthlyPayments) \<Rightarrow>
           F s' (if 0 < length monthlyPayments then js_payments ps @ [monthlyPayments]
                 else js_payments ps)
    else Some (js_state s, js_payments ps)) =
   (if EPSILON < fst s
    then case year_fin 12 mp r e s [] of
         (s', monthlyPayments) \<Rightarrow>
           F (js_state s') (js_payments (if 0 < length monthlyPayments
                 then ps @ [monthlyPayments] else ps))
    else Some (js_state s, js_payments ps))"
  by (cases "year_fin 12 mp r e s []")
    (simp add: year_Num_start js_gt_def js_payments_def fst_js_state)

lemma amortize_Num_Some:
  assumes "amortize_fin mp r e s ps = Some res"
  shows "amortize (Num mp) (Num r) (Num e) (js_state s) (js_payments ps) =
     Some (js_state (fst res), js_payments (snd res))"
proof -
  let ?P = "\<lambda>mp r e s ps res.
      amortize (Num mp) (Num r) (Num e) (js_state s) (js_payments ps) =
        Some (js_state (fst res), js_payments (snd res))"
  show ?thesis
  proof (rule amortize_fin.raw_induct [where P = ?P, OF _ assms])
    fix f mp r e s ps res
    assume IH: "\<And>mp r e s ps res. f mp r e s ps = Some res \<Longrightarrow> ?P mp r e s ps res"
    assume body: "(if EPSILON < fst s
        then case year_fin 12 mp r e s [] of
             (s', monthlyPayments) \<Rightarrow>
               f mp r e s'
                (if 0 < length monthlyPayments then ps @ [monthlyPayments] else ps)
        else Some (s, ps)) = Some res"
    show "?P mp r e s ps res"
    proof (cases "EPSILON < fst s")
      case False
      with body have "res = (s, ps)" by simp
      with False show ?thesis
        by (subst amortize.simps) (simp add: js_gt_def fst_js_state)
    next
      case True
      obtain s' ms where y: "year_fin 12 mp r e s [] = (s', ms)"
        by (cases "year_fin 12 mp r e s []")
      from body True y
      have "f mp r e s' (if 0 < length ms then ps @ [ms] else ps) = Some res"
        by simp
      from IH [OF this]
      have rec: "amortize (Num mp) (Num r) (Num e) (js_state s')
          (js_payments (if 0 < length ms then ps @ [ms] else ps)) =
          Some (js_state (fst res), js_payments (snd res))" .
      have "amortize (Num mp) (Num r) (Num e) (js_state s) (js_payments ps) =
          (if EPSILON < fst s
           then case year_fin 12 mp r e s [] of
                (s', monthlyPayments) \<Rightarrow>
                  amortize (Num mp) (Num r) (Num e) (js_state s')
                    (js_payments (if 0 < length monthlyPayments
                       then ps @ [monthlyPayments] else ps))
           else Some (js_state s, js_payments ps))"
        by (subst amortize.simps) (rule amortize_step_Num)
      with True y rec show ?thesis by simp
    qed
  qed
qed

lemma amortize_Num_None:
  assumes run: "amortize MP R E S PS = Some Y"
    and args: "MP = Num mp" "R = Num r" "E = Num e" "S = js_state s" "PS = js_payments ps"
  shows "amortize_fin mp r e s ps \<noteq> None"
proof -
  let ?P = "\<lambda>MP R E S PS (Y :: (jsnum \<times> jsnum) \<times> jsnum payment list list).
      \<forall>s ps. MP = Num mp \<longrightarrow> R = Num r \<longrightarrow> E = Num e \<longrightarrow> S = js_state s \<longrightarrow>
        PS = js_payments ps \<longrightarrow> amortize_fin mp r e s ps \<noteq> None"
  have main: "?P MP R E S PS Y"
  proof (rule amortize.raw_induct [where P = ?P, OF _ run])
    fix f MP R E S PS Y
    assume IH: "\<And>MP R E S PS Y. f MP R E S PS = Some Y \<Longrightarrow> ?P MP R E S PS Y"
    assume body: "(if js_gt (fst S) (Num EPSILON)
        then case year 12 MP R E S [] of
             (s', monthlyPayments) \<Rightarrow>
               f MP R E s'
                (if 0 < length monthlyPayments then PS @ [monthlyPayments] else PS)
        else Some (S, PS)) = Some Y"
    show "?P MP R E S PS Y"
    proof (intro allI impI)
      fix s ps
      assume eqs: "MP = Num mp" "R = Num r" "E = Num e" "S = js_state s" "PS = js_payments ps"
      show "amortize_fin mp r e s ps \<noteq> None"
      proof (cases "EPSILON < fst s")
        case False
        then show ?thesis
          by (subst amortize_fin.simps) simp
      next
        case True
        obtain s' ms where y: "year_fin 12 mp r e s [] = (s', ms)"
          by (cases "year_fin 12 mp r e s []")
        from body [unfolded eqs amortize_step_Num] True y
        have "f (Num mp) (Num r) (Num e) (js_state s')
            (js_payments (if 0 < length ms then ps @ [ms] else ps)) = Some Y"
          by simp
        from IH [OF this, rule_format, OF refl refl refl refl refl]
        have "amortize_fin mp r e s' (if 0 < length ms then ps @ [ms] else ps) \<noteq> None" .
        with True y show ?thesis
          by (subst amortize_fin.simps) simp
      qed
    qed
  qed
  from main [rule_format, OF args] show ?thesis .
qed

lemma amortize_Num:
  "amortize (Num mp) (Num r) (Num e) (js_state s) (js_payments ps) =
     map_option (\<lambda>res. (js_state (fst res), js_payments (snd res)))
       (amortize_fin mp r e s ps)"
proof (cases "amortize_fin mp r e s ps")
  case (Some res)
  with amortize_Num_Some [OF Some] show ?thesis by simp
next
  case None
  have "amortize (Num mp) (Num r) (Num e) (js_state s) (js_payments ps) = None"
  proof (cases "amortize (Num mp) (Num r) (Num e) (js_state s) (js_payments ps)")
    case None
    then show ?thesis .
  next
    case (Some Y)
    from amortize_Num_None [OF Some refl refl refl refl refl] None show ?thesis
      by simp
  qed
  with None show ?thesis by simp
qed

lemma js_pow_Num: "js_pow (Num x) n = Num (x ^ n)"
  by (cases n) simp_all

lemma monthlyPayment_Num:
  assumes t: "t < 30" and b: "(1 + r / 12) ^ ((t + 1) * 12) - 1 \<noteq> 0"
  shows "js_div (js_mul (Num P)
        (js_mul (js_div (Num r) (Num 12))
           (pow_termMonths (js_add (Num 1) (js_div (Num r) (Num 12))) (termYearsAt t))))
        (js_sub (pow_termMonths (js_add (Num 1) (js_div (Num r) (Num 12))) (termYearsAt t)) (Num 1)) =
      Num (spec_payment P r (t + 1))"
  using b by (simp add: termYearsAt_valid [OF t] pow_termMonths_def js_sub_def js_pow_Num
      spec_payment_eq)

lemma calculate_core_Num:
  assumes t: "t < 30" and b: "(1 + r / 12) ^ ((t + 1) * 12) - 1 \<noteq> 0"
  shows "calculate_core (Num P) (Num r) t (Num e) =
     map_option (\<lambda>res. (Num (spec_payment P r (t + 1)), Num (snd (fst res)), js_payments (snd res)))
       (amortize_fin (spec_payment P r (t + 1)) r e (P, 0) [])"
proof -
  have st: "(Num P, Num 0) = js_state (P, 0)" and ps: "[] = js_payments []"
    by (simp_all add: js_state_def js_payments_def)
  show ?thesis
    unfolding calculate_core_def Let_def monthlyPayment_Num [OF t b]
    by (subst st, subst ps, subst amortize_Num)
      (simp add: snd_js_state split: option.splits)
qed


text \<open>A valid input: the loop ends, and its result satisfies the invariants.\<close>

lemma core_valid:
  assumes v: "validInput P r t e"
  shows "\<exists>s ps. calculate_core (Num P) (Num r) t (Num e) =
       Some (Num (spec_payment P r (t + 1)), Num (snd s), js_payments ps) \<and>
     fst s \<le> EPSILON \<and> inv_regular (spec_payment P r (t + 1)) r e P s (concat ps) \<and>
     length ps = (length (concat ps) + 11) div 12 \<and>
     balance (spec_payment P r (t + 1)) r e P ((t + 1) * 12) \<le> EPSILON \<and>
     P * r / 12 < spec_payment P r (t + 1) + e"
proof -
  from v have P: "0 < P" and r: "0 < r" and t: "t < 30" and e: "0 \<le> e"
    by (simp_all add: validInput_def)
  define n where "n = (t + 1) * 12"
  define mp where "mp = spec_payment P r (t + 1)"
  have n: "0 < n" by (simp add: n_def)
  have mp: "mp = (P * (r / 12 * (1 + r / 12) ^ n)) / ((1 + r / 12) ^ n - 1)"
    by (simp add: mp_def n_def spec_payment_eq)
  have b: "(1 + r / 12) ^ n - 1 \<noteq> 0"
    using growth_gt_1 [OF r n] by simp
  have d0: "P * r / 12 < mp"
    unfolding mp using P r n by (rule payment_gt_interest)
  with e have d: "P * r / 12 < mp + e" by simp
  have "balance mp r e P n \<le> balance mp r 0 P n"
    using r e by (rule balance_extra_le)
  also have "\<dots> = 0"
    unfolding mp using r n by (rule balance_payoff)
  finally have N: "balance mp r e P n \<le> EPSILON"
    by (simp add: EPSILON_def)
  from amortize_regular [OF r d _ N] P
  obtain s ps where run: "amortize_fin mp r e (P, 0) [] = Some (s, ps)"
    and fin: "fst s \<le> EPSILON" and inv: "inv_regular mp r e P s (concat ps)"
    and len: "length ps = (length (concat ps) + 11) div 12"
    by auto
  have "calculate_core (Num P) (Num r) t (Num e) = Some (Num mp, Num (snd s), js_payments ps)"
    using calculate_core_Num [OF t, of r P e] b run by (simp add: mp_def n_def)
  with fin inv len N d show ?thesis
    unfolding mp_def n_def by blast
qed

section \<open>The claims\<close>



lemma length_js_payments: "length (js_payments ps) = length ps"
  by (simp add: js_payments_def)












lemma schedule_length:
  assumes r: "0 < r" and d: "P * r / 12 < mp + e"
    and fin: "fst s \<le> EPSILON" and inv: "inv_regular mp r e P s fl"
  shows "length fl \<le> N \<longleftrightarrow> balance mp r e P N \<le> EPSILON"
proof
  assume N: "balance mp r e P N \<le> EPSILON"
  show "length fl \<le> N"
  proof (cases "fl = []")
    case True
    then show ?thesis by simp
  next
    case False
    with inv have "EPSILON < balance mp r e P (length fl - 1)"
      by (simp add: inv_regular_def inv_balance_def)
    with balance_bound [OF r _ N] d have "length fl - 1 < N" by simp
    then show ?thesis by simp
  qed
next
  assume len: "length fl \<le> N"
  from d have d': "P * r / 12 \<le> mp + e" by simp
  show "balance mp r e P N \<le> EPSILON"
  proof (cases "fl = []")
    case True
    with inv fin have "P \<le> EPSILON"
      by (simp add: inv_regular_def inv_total_def split: if_splits)
    moreover have "balance mp r e P N \<le> balance mp r e P 0"
      using r d' by (rule balance_antimono) simp
    ultimately show ?thesis by (simp add: balance_0)
  next
    case False
    with inv fin have "balance mp r e P (length fl) \<le> EPSILON"
      by (simp add: inv_regular_def inv_balance_def)
    moreover have "balance mp r e P N \<le> balance mp r e P (length fl)"
      using r d' len by (rule balance_antimono)
    ultimately show ?thesis by simp
  qed
qed











lemma run_negative_loan:
  "handleSubmit \<lparr>loanAmount = Num (- 1), interest = Num (609 / 100), loanTerm = 0,
       extraMonthlyPayment = Num 0, error = None, results = None\<rparr> =
   Some \<lparr>loanAmount = Num (- 1), interest = Num (609 / 100), loanTerm = 0,
       extraMonthlyPayment = Num 0, error = Some [],
       results = Some \<lparr>res_monthlyPayment = Num 0, res_totalPaid = Num 0, totalYears = 0,
         chartData = \<lparr>labels = [], interestData = [], principalData = []\<rparr>,
         tableData = []\<rparr>\<rparr>"
  by code_simp

text \<open>
  A loan amount of -1 is not rejected: \<open>handleSubmit\<close> clears the error and stores a
  result of \<open>calculate\<close>.
\<close>

theorem negative_loan_counterexample:
  "spec_invalid \<lparr>loanAmount = Num (- 1), interest = Num (609 / 100), loanTerm = 0,
       extraMonthlyPayment = Num 0, error = None, results = None\<rparr> \<and>
   \<not> rejected \<lparr>loanAmount = Num (- 1), interest = Num (609 / 100), loanTerm = 0,
       extraMonthlyPayment = Num 0, error = None, results = None\<rparr> \<and>
   handleSubmit \<lparr>loanAmount = Num (- 1), interest = Num (609 / 100), loanTerm = 0,
       extraMonthlyPayment = Num 0, error = None, results = None\<rparr> =
   Some \<lparr>loanAmount = Num (- 1), interest = Num (609 / 100), loanTerm = 0,
       extraMonthlyPayment = Num 0, error = Some [],
       results = Some \<lparr>res_monthlyPayment = Num 0, res_totalPaid = Num 0, totalYears = 0,
         chartData = \<lparr>labels = [], interestData = [], principalData = []\<rparr>,
         tableData = []\<rparr>\<rparr>"
  using run_negative_loan by (simp add: spec_invalid_def not_positive_def rejected_def)

text \<open>
  Claim C5, amended. When the loan amount or the rate is zero or not a number, or the
  extra payment is negative or not a number, \<open>handleSubmit\<close> sets an error message and
  returns before \<open>calculate\<close> is called: the rest of the state, \<open>results\<close> included,
  is left as it was. The term is a select option and is not checked.
\<close>

theorem rejects_what_it_checks:
  assumes "isNaN (loanAmount st) \<or> loanAmount st = Num 0 \<or>
      isNaN (interest st) \<or> interest st = Num 0 \<or>
      isNaN (extraMonthlyPayment st) \<or> js_lt (extraMonthlyPayment st) (Num 0)"
  shows "rejected st"
proof -
  let ?rate = "js_mul (interest st) (Num (1 / 100))"
  have a: "rejected st" if "isNaN (loanAmount st) \<or> js_not (loanAmount st)"
    unfolding rejected_def
    by (rule exI [of _ "''Loan amount is invalid''"]) (use that in \<open>simp add: handleSubmit_def\<close>)
  have b: "rejected st"
    if "\<not> (isNaN (loanAmount st) \<or> js_not (loanAmount st))"
      "isNaN ?rate \<or> js_not ?rate"
    unfolding rejected_def
    by (rule exI [of _ "''Interest is invalid''"]) (use that in \<open>simp add: handleSubmit_def\<close>)
  have c: "rejected st"
    if "\<not> (isNaN (loanAmount st) \<or> js_not (loanAmount st))"
      "\<not> (isNaN ?rate \<or> js_not ?rate)"
      "isNaN (extraMonthlyPayment st) \<or> js_lt (extraMonthlyPayment st) (Num 0)"
    unfolding rejected_def
    by (rule exI [of _ "''Extra monthly payment is invalid''"])
      (use that in \<open>simp add: handleSubmit_def\<close>)
  have la: "isNaN (loanAmount st) \<or> js_not (loanAmount st) \<longleftrightarrow>
      isNaN (loanAmount st) \<or> loanAmount st = Num 0"
    by (cases "loanAmount st") simp_all
  have ir: "isNaN ?rate \<or> js_not ?rate \<longleftrightarrow> isNaN (interest st) \<or> interest st = Num 0"
    by (cases "interest st") simp_all
  from assms a b c la ir show ?thesis by blast
qed

theorem rejects_what_it_checks_witness:
  "rejected \<lparr>loanAmount = Num 0, interest = Num (609 / 100), loanTerm = 0,
       extraMonthlyPayment = Num 0, error = None, results = None\<rparr> \<and>
   rejected \<lparr>loanAmount = Num 500000, interest = NaN, loanTerm = 0,
       extraMonthlyPayment = Num 0, error = None, results = None\<rparr> \<and>
   rejected \<lparr>loanAmount = Num 500000, interest = Num (609 / 100), loanTerm = 0,
       extraMonthlyPayment = Num (- 500), error = None, results = None\<rparr>"
  using rejects_what_it_checks [of "\<lparr>loanAmount = Num 0, interest = Num (609 / 100), loanTerm = 0,
       extraMonthlyPayment = Num 0, error = None, results = None\<rparr>"]
    rejects_what_it_checks [of "\<lparr>loanAmount = Num 500000, interest = NaN, loanTerm = 0,
       extraMonthlyPayment = Num 0, error = None, results = None\<rparr>"]
    rejects_what_it_checks [of "\<lparr>loanAmount = Num 500000, interest = Num (609 / 100), loanTerm = 0,
       extraMonthlyPayment = Num (- 500), error = None, results = None\<rparr>"]
  by simp

subsection \<open>The two scenarios of the specification\<close>

lemma growth_12:
  "(1062628958446 / 1000000000000 :: real) \<le> (40203 / 40000) ^ 12"
  "(40203 / 40000 :: real) ^ 12 \<le> 1062628958447 / 1000000000000"
  by (simp_all add: power_divide)

lemma growth_60:
  "(1354903095491 / 1000000000000 :: real) \<le> (40203 / 40000) ^ 60"
  "(40203 / 40000 :: real) ^ 60 \<le> 1354903095499 / 1000000000000"
proof -
  have e: "(40203 / 40000 :: real) ^ 60 = ((40203 / 40000) ^ 12) ^ 5"
    by (simp add: power_mult [symmetric])
  have "(1354903095491 / 1000000000000 :: real) \<le> (1062628958446 / 1000000000000) ^ 5"
    by (simp add: power_divide)
  also have "\<dots> \<le> ((40203 / 40000) ^ 12) ^ 5"
    by (rule power_mono [OF growth_12(1)]) simp
  finally show "(1354903095491 / 1000000000000 :: real) \<le> (40203 / 40000) ^ 60"
    by (simp only: e)
  have "((40203 / 40000 :: real) ^ 12) ^ 5 \<le> (1062628958447 / 1000000000000) ^ 5"
    by (rule power_mono [OF growth_12(2)]) simp
  also have "\<dots> \<le> 1354903095499 / 1000000000000"
    by (simp add: power_divide)
  finally show "(40203 / 40000 :: real) ^ 60 \<le> 1354903095499 / 1000000000000"
    by (simp only: e)
qed

lemma growth_360:
  "(61865625737 / 10000000000 :: real) \<le> (40203 / 40000) ^ 360"
  "(40203 / 40000 :: real) ^ 360 \<le> 6186562574 / 1000000000"
proof -
  have e: "(40203 / 40000 :: real) ^ 360 = ((40203 / 40000) ^ 60) ^ 6"
    by (simp add: power_mult [symmetric])
  have "(61865625737 / 10000000000 :: real) \<le> (1354903095491 / 1000000000000) ^ 6"
    by (simp add: power_divide)
  also have "\<dots> \<le> ((40203 / 40000) ^ 60) ^ 6"
    by (rule power_mono [OF growth_60(1)]) simp
  finally show "(61865625737 / 10000000000 :: real) \<le> (40203 / 40000) ^ 360"
    by (simp only: e)
  have "((40203 / 40000 :: real) ^ 60) ^ 6 \<le> (1354903095499 / 1000000000000) ^ 6"
    by (rule power_mono [OF growth_60(2)]) simp
  also have "\<dots> \<le> 6186562574 / 1000000000"
    by (simp add: power_divide)
  finally show "(40203 / 40000 :: real) ^ 360 \<le> 6186562574 / 1000000000"
    by (simp only: e)
qed

lemma growth_300: "(4 :: real) \<le> (40203 / 40000) ^ 300"
proof -
  have e: "(40203 / 40000 :: real) ^ 300 = ((40203 / 40000) ^ 60) ^ 5"
    by (simp add: power_mult [symmetric])
  have "(4 :: real) \<le> (1354903095491 / 1000000000000) ^ 5"
    by (simp add: power_divide)
  also have "\<dots> \<le> ((40203 / 40000) ^ 60) ^ 5"
    by (rule power_mono [OF growth_60(1)]) simp
  finally show ?thesis
    by (simp only: e)
qed

lemma scenario_rate: "1 + (609 / 10000) / 12 = (40203 / 40000 :: real)"
  by simp

lemma scenario_payment:
  "3026745 / 1000 < spec_payment 500000 (609 / 10000) 30"
  "spec_payment 500000 (609 / 10000) 30 < 30267451 / 10000"
proof -
  define X :: real where "X = (40203 / 40000) ^ 360"
  have lo: "61865625737 / 10000000000 \<le> X" and hi: "X \<le> 6186562574 / 1000000000"
    unfolding X_def by (rule growth_360)+
  have sp: "spec_payment 500000 (609 / 10000) 30 = (5075 / 2) * X / (X - 1)"
    by (simp add: spec_payment_def Let_def X_def)
  from lo have pos: "0 < X - 1" by simp
  have "3026745 / 1000 * (X - 1) < (5075 / 2) * X"
    using hi by simp
  then show "3026745 / 1000 < spec_payment 500000 (609 / 10000) 30"
    unfolding sp using pos by (simp add: pos_less_divide_eq)
  have "(5075 / 2) * X < 30267451 / 10000 * (X - 1)"
    using lo by simp
  then show "spec_payment 500000 (609 / 10000) 30 < 30267451 / 10000"
    unfolding sp using pos by (simp add: pos_divide_less_eq)
qed

lemma valid_scenario: "0 \<le> e \<Longrightarrow> validInput 500000 (609 / 10000) 29 e"
  by (simp add: validInput_def)

text \<open>Scenario A: 360 months, each paying the fixed payment.\<close>

lemma scenario_A:
  "\<exists>tp ps. calculate_core (Num 500000) (Num (609 / 10000)) 29 (Num 0) =
       Some (Num (spec_payment 500000 (609 / 10000) 30), Num tp, js_payments ps) \<and>
     length ps = 30 \<and> tp = 360 * spec_payment 500000 (609 / 10000) 30"
proof -
  define mp where "mp = spec_payment 500000 (609 / 10000) 30"
  define r :: real where "r = 609 / 10000"
  define P :: real where "P = 500000"
  have r: "0 < r" by (simp add: r_def)
  have mp_lo: "3026 < mp"
    using scenario_payment(1) by (simp add: mp_def)
  from core_valid [OF valid_scenario [of 0]]
  obtain s ps where run: "calculate_core (Num P) (Num r) 29 (Num 0) =
      Some (Num mp, Num (snd s), js_payments ps)"
    and fin: "fst s \<le> EPSILON"
    and inv: "inv_regular mp r 0 P s (concat ps)"
    and len: "length ps = (length (concat ps) + 11) div 12"
    and N: "balance mp r 0 P 360 \<le> EPSILON"
    and d: "P * r / 12 < mp + 0"
    unfolding mp_def r_def P_def by auto
  note sl = schedule_length [OF r d fin inv]
  have b360: "balance mp r 0 P 360 = 0"
    using balance_payoff [of r 360 P] r
    by (simp add: mp_def spec_payment_eq r_def P_def)
  have "1 \<le> (1 + r / 12) ^ 359"
    using r by (intro one_le_power) simp
  moreover have "488 < mp + 0 - P * r / 12"
    using mp_lo by (simp add: P_def r_def)
  ultimately have "488 * 1 < (mp + 0 - P * r / 12) * (1 + r / 12) ^ 359"
    by (intro mult_less_le_imp_less) simp_all
  moreover have "balance mp r 0 P (Suc 359) =
      balance mp r 0 P 359 - (mp + 0 - P * r / 12) * (1 + r / 12) ^ 359"
    using r by (intro balance_diff) simp
  ultimately have b359: "EPSILON < balance mp r 0 P 359"
    using b360 by (simp add: EPSILON_def)
  from sl [of 360] N have "length (concat ps) \<le> 360" by simp
  moreover from sl [of 359] b359 have "\<not> length (concat ps) \<le> 359" by simp
  ultimately have months: "length (concat ps) = 360" by simp
  with len have years: "length ps = 30" by simp
  from inv fin months b360 have "snd s = 360 * mp"
    by (simp add: inv_regular_def inv_paid_def)
  with run years show ?thesis
    unfolding mp_def r_def P_def by blast
qed

text \<open>Scenario B: with 500 more a month the loan is paid off within 300 months.\<close>

lemma scenario_B:
  "\<exists>tp ps. calculate_core (Num 500000) (Num (609 / 10000)) 29 (Num 500) =
       Some (Num (spec_payment 500000 (609 / 10000) 30), Num tp, js_payments ps) \<and>
     length ps \<le> 25 \<and> tp \<le> 300 * (spec_payment 500000 (609 / 10000) 30 + 500)"
proof -
  define mp where "mp = spec_payment 500000 (609 / 10000) 30"
  define r :: real where "r = 609 / 10000"
  define P :: real where "P = 500000"
  have r: "0 < r" by (simp add: r_def)
  have mp_lo: "3026 < mp"
    using scenario_payment(1) by (simp add: mp_def)
  from core_valid [OF valid_scenario [of 500]]
  obtain s ps where run: "calculate_core (Num P) (Num r) 29 (Num 500) =
      Some (Num mp, Num (snd s), js_payments ps)"
    and fin: "fst s \<le> EPSILON"
    and inv: "inv_regular mp r 500 P s (concat ps)"
    and len: "length ps = (length (concat ps) + 11) div 12"
    and d: "P * r / 12 < mp + 500"
    unfolding mp_def r_def P_def by auto
  note sl = schedule_length [OF r d fin inv]
  define Y :: real where "Y = (40203 / 40000) ^ 300"
  have Y: "4 \<le> Y" unfolding Y_def by (rule growth_300)
  define Z where "Z = (mp + 500) * (Y - 1)"
  have bal: "balance mp r 500 P 300 = 500000 * Y - Z / (203 / 40000)"
    by (simp add: balance_def r_def P_def Y_def Z_def)
  have "(5075 / 2) * Y \<le> 3526 * (Y - 1)"
    using Y by simp
  also have "\<dots> \<le> Z"
    unfolding Z_def using mp_lo Y by (intro mult_right_mono) simp_all
  finally have "(5075 / 2) * Y \<le> Z" .
  with bal have "balance mp r 500 P 300 \<le> EPSILON"
    by (simp add: EPSILON_def)
  with sl [of 300] have months: "length (concat ps) \<le> 300" by simp
  with len have years: "length ps \<le> 25" by simp
  from inv fin have "snd s = real (length (concat ps)) * (mp + 500) +
      min 0 (balance mp r 500 P (length (concat ps)))"
    by (simp add: inv_regular_def inv_paid_def)
  then have "snd s \<le> real (length (concat ps)) * (mp + 500)"
    by simp
  also have "\<dots> \<le> 300 * (mp + 500)"
    using months mp_lo by (intro mult_right_mono) simp_all
  finally have "snd s \<le> 300 * (mp + 500)" .
  with run years show ?thesis
    unfolding mp_def r_def P_def by blast
qed

text \<open>
  In scenario A the payment is more than 3 below the 3029.85 of the specification.
\<close>

theorem scenario_A_counterexample:
  "\<exists>mp tp ps. calculate_core (Num 500000) (Num (609 / 10000)) 29 (Num 0) =
       Some (Num mp, tp, ps) \<and> mp + 3 < 302985 / 100"
  using scenario_A scenario_payment(2) by fastforce

text \<open>
  Claim C8, amended. For a principal of 500000 at 6.09 per cent over 30 years with no
  extra payment, the fixed payment is between 3026.745 and 3026.7451, shown as 3027, and
  there are exactly 30 yearly entries.
\<close>

theorem scenario_A_payment_and_years:
  "\<exists>mp tp ps. calculate_core (Num 500000) (Num (609 / 10000)) 29 (Num 0) =
       Some (Num mp, tp, ps) \<and>
     3026745 / 1000 < mp \<and> mp < 30267451 / 10000 \<and> length ps = 30 \<and>
     calculate (Num 500000) (Num (609 / 10000)) 29 (Num 0) =
       Some (calculate_output (Num mp, tp, ps)) \<and>
     res_monthlyPayment (calculate_output (Num mp, tp, ps)) = Num 3027 \<and>
     totalYears (calculate_output (Num mp, tp, ps)) = 30"
proof -
  define mp where "mp = spec_payment 500000 (609 / 10000) 30"
  from scenario_A obtain tp ps where
    run: "calculate_core (Num 500000) (Num (609 / 10000)) 29 (Num 0) =
      Some (Num mp, Num tp, js_payments ps)"
    and years: "length ps = 30"
    unfolding mp_def by blast
  have b: "3026745 / 1000 < mp" "mp < 30267451 / 10000"
    unfolding mp_def by (rule scenario_payment)+
  then have "\<lfloor>mp + 1 / 2\<rfloor> = 3027"
    by (intro floor_unique) simp_all
  then have "res_monthlyPayment (calculate_output (Num mp, Num tp, js_payments ps)) = Num 3027"
    by (simp add: calculate_output_def)
  moreover have "totalYears (calculate_output (Num mp, Num tp, js_payments ps)) = 30"
    using years by (simp add: calculate_output_def length_js_payments)
  moreover have "calculate (Num 500000) (Num (609 / 10000)) 29 (Num 0) =
      Some (calculate_output (Num mp, Num tp, js_payments ps))"
    using run by (simp add: calculate_def)
  moreover have "length (js_payments ps) = 30"
    using years by (simp add: length_js_payments)
  ultimately show ?thesis
    using run b by blast
qed

text \<open>
  Claim C9. For a principal of 500000 at 6.09 per cent over 30 years, an extra payment
  of 500 a month gives fewer than 30 yearly entries, where no extra payment gives 30, and
  a strictly smaller \<open>totalPaid\<close>; the fixed payment is the same.
\<close>

theorem extra_payment_saves:
  "\<exists>mp tp ps tp' ps'.
     calculate_core (Num 500000) (Num (609 / 10000)) 29 (Num 0) =
       Some (Num mp, Num tp, ps) \<and>
     calculate_core (Num 500000) (Num (609 / 10000)) 29 (Num 500) =
       Some (Num mp, Num tp', ps') \<and>
     length ps = 30 \<and> length ps' < 30 \<and> tp' < tp"
proof -
  define mp where "mp = spec_payment 500000 (609 / 10000) 30"
  from scenario_A obtain tp ps where
    a: "calculate_core (Num 500000) (Num (609 / 10000)) 29 (Num 0) =
      Some (Num mp, Num tp, js_payments ps)"
    "length ps = 30" "tp = 360 * mp"
    unfolding mp_def by blast
  from scenario_B obtain tp' ps' where
    b: "calculate_core (Num 500000) (Num (609 / 10000)) 29 (Num 500) =
      Some (Num mp, Num tp', js_payments ps')"
    "length ps' \<le> 25" "tp' \<le> 300 * (mp + 500)"
    unfolding mp_def by blast
  have "3026 < mp"
    using scenario_payment(1) by (simp add: mp_def)
  with a(3) b(3) have lt: "tp' < tp" by simp
  have "length (js_payments ps) = 30" "length (js_payments ps') < 30"
    using a(2) b(2) by (simp_all add: length_js_payments)
  with a(1) b(1) lt show ?thesis by blast
qed

end
